theory Spec2Isabelle
  imports Main "HOL-Library.Word"
begin

section \<open>Common declarations of namespace laav (Common.hpp)\<close>

subsection \<open>Buffer sizes and encoder defaults\<close>

text \<open>
  \<^verbatim>\<open>unsigned int encodedVideoFrameBufferSize = 100;\<close>
  \<^verbatim>\<open>unsigned int encodedAudioFrameBufferSize = 100;\<close>
  \<^verbatim>\<open>unsigned int DEFAULT_BITRATE = -1;\<close>
  \<^verbatim>\<open>unsigned int DEFAULT_GOPSIZE = -1;\<close>

  An \<open>unsigned int\<close> is a 32-bit word (the header is built with GCC on Linux). The
  initialiser \<open>-1\<close> is the \<open>int\<close> value minus one, converted to \<open>unsigned int\<close>:
  the conversion is \<open>of_int\<close>, which reduces modulo \<open>2 ^ 32\<close>.
\<close>

type_synonym uint = "32 word"

definition encodedVideoFrameBufferSize :: uint where
  "encodedVideoFrameBufferSize = 100"

definition encodedAudioFrameBufferSize :: uint where
  "encodedAudioFrameBufferSize = 100"

definition DEFAULT_BITRATE :: uint where
  "DEFAULT_BITRATE = of_int (- 1)"

definition DEFAULT_GOPSIZE :: uint where
  "DEFAULT_GOPSIZE = of_int (- 1)"

subsection \<open>Status enumerations\<close>

text \<open>
  \<^verbatim>\<open>enum MediaStatus {MEDIA_READY, MEDIA_NOT_READY, MEDIA_BUFFERING, MEDIA_NO_DATA};\<close>
  and \<^verbatim>\<open>enum DeviceStatus {OPEN_DEV_ERROR, ..., DEV_DISCONNECTED};\<close>, in the order of
  declaration. The lists below enumerate the enumerators in that order; an enumerator's
  integer value is its position.
\<close>

datatype MediaStatus = MEDIA_READY | MEDIA_NOT_READY | MEDIA_BUFFERING | MEDIA_NO_DATA

datatype DeviceStatus =
    OPEN_DEV_ERROR
  | CONFIGURE_DEV_ERROR
  | CLOSE_DEV_ERROR
  | DEV_INITIALIZING
  | DEV_CONFIGURED
  | DEV_CAN_GRAB
  | DEV_DISCONNECTED

definition MediaStatus_enumerators :: "MediaStatus list" where
  "MediaStatus_enumerators = [MEDIA_READY, MEDIA_NOT_READY, MEDIA_BUFFERING, MEDIA_NO_DATA]"

definition DeviceStatus_enumerators :: "DeviceStatus list" where
  "DeviceStatus_enumerators =
     [OPEN_DEV_ERROR, CONFIGURE_DEV_ERROR, CLOSE_DEV_ERROR, DEV_INITIALIZING,
      DEV_CONFIGURED, DEV_CAN_GRAB, DEV_DISCONNECTED]"

fun MediaStatus_value :: "MediaStatus \<Rightarrow> nat" where
  "MediaStatus_value MEDIA_READY = 0"
| "MediaStatus_value MEDIA_NOT_READY = 1"
| "MediaStatus_value MEDIA_BUFFERING = 2"
| "MediaStatus_value MEDIA_NO_DATA = 3"

fun DeviceStatus_value :: "DeviceStatus \<Rightarrow> nat" where
  "DeviceStatus_value OPEN_DEV_ERROR = 0"
| "DeviceStatus_value CONFIGURE_DEV_ERROR = 1"
| "DeviceStatus_value CLOSE_DEV_ERROR = 2"
| "DeviceStatus_value DEV_INITIALIZING = 3"
| "DeviceStatus_value DEV_CONFIGURED = 4"
| "DeviceStatus_value DEV_CAN_GRAB = 5"
| "DeviceStatus_value DEV_DISCONNECTED = 6"

subsection \<open>The status signal\<close>

text \<open>
  \<^verbatim>\<open>class MediaException\<close> has one private field \<open>mCause\<close>, a constructor that stores
  its argument there and the const observer \<open>cause()\<close>. A method call is modelled on
  the object it is called on: it returns its result together with the object after the
  call.
\<close>

record MediaException =
  mCause :: MediaStatus

definition MediaException_ctor :: "MediaStatus \<Rightarrow> MediaException" where
  "MediaException_ctor c = \<lparr>mCause = c\<rparr>"

definition cause :: "MediaException \<Rightarrow> MediaStatus \<times> MediaException" where
  "cause this = (mCause this, this)"

subsection \<open>What a call can throw, and the error stream\<close>

text \<open>
  The exceptions of the sources: \<open>std::runtime_error\<close> (thrown by
  \<open>printAndThrowUnrecoverableError_\<close>, carrying its \<open>what()\<close> string),
  \<open>std::out_of_range\<close> (thrown by \<open>std::string::substr\<close>), the status signal
  \<open>MediaException\<close> and the empty class \<open>OutOfBounds\<close>. A call that can throw returns
  \<open>Inl\<close> of what it threw, or \<open>Inr\<close> of its result.
\<close>

datatype thrown =
    std_runtime_error string
  | std_out_of_range
  | MediaException_thrown MediaException
  | OutOfBounds_thrown

text \<open>
  The process state a call can touch is the error stream \<open>std::cerr\<close>: \<open>cerr\<close> holds
  the characters that have reached its sink so far, \<open>cerr_good\<close> is the stream's
  \<open>good()\<close>, and \<open>cerr_room\<close> is how many more characters the sink will take
  (\<open>None\<close>: no limit; \<open>Some 0\<close>: a closed or full sink).
\<close>

record process =
  cerr :: string
  cerr_good :: bool
  cerr_room :: "nat option"

text \<open>
  \<open>std::cerr << s\<close>, the library's formatted insertion of a string. A stream that is
  not \<open>good()\<close> takes nothing and stays as it is. A good stream hands the characters to
  its sink; when the sink does not take them all, the stream keeps what was taken and
  is no longer good (\<open>badbit\<close>). The stream's exception mask is the default one, which
  the code never changes, so an insertion itself throws nothing.
\<close>

definition cerr_insert :: "string \<Rightarrow> process \<Rightarrow> process" where
  "cerr_insert s p =
     (if \<not> cerr_good p then p
      else (case cerr_room p of
              None \<Rightarrow> p\<lparr>cerr := cerr p @ s\<rparr>
            | Some n \<Rightarrow>
                (if length s \<le> n
                 then p\<lparr>cerr := cerr p @ s, cerr_room := Some (n - length s)\<rparr>
                 else p\<lparr>cerr := cerr p @ take n s, cerr_good := False,
                        cerr_room := Some 0\<rparr>)))"

text \<open>
  \<^verbatim>\<open>void printAndThrowUnrecoverableError_(const std::string& error, const std::runtime_error& func)\<close>
  is \<^verbatim>\<open>std::cerr << error << "\n"; throw func;\<close>: it inserts \<open>error\<close> and then a
  newline into \<open>std::cerr\<close>, and throws \<open>func\<close> whatever became of the insertions. The
  macro \<open>printAndThrowUnrecoverableError(x)\<close> passes
  \<open>std::runtime_error{__PRETTY_FUNCTION__}\<close> as \<open>func\<close>; the compiler's string for the
  enclosing function is the parameter \<open>pretty_function\<close>. (Both are declared under
  \<open>#ifdef __GNUG__\<close>, the compiler the header is built with.) A name cannot end with an
  underscore here: the function \<open>printAndThrowUnrecoverableError_\<close> is written with a
  prime instead, as are the template parameters \<open>width_\<close> and \<open>height_\<close> below.
\<close>

definition printAndThrowUnrecoverableError' ::
  "string \<Rightarrow> thrown \<Rightarrow> process \<Rightarrow> (thrown + unit) \<times> process" where
  "printAndThrowUnrecoverableError' error func p =
     (let p' = cerr_insert [CHR 0x0A] (cerr_insert error p) in (Inl func, p'))"

definition printAndThrowUnrecoverableError ::
  "string \<Rightarrow> string \<Rightarrow> process \<Rightarrow> (thrown + unit) \<times> process" where
  "printAndThrowUnrecoverableError pretty_function x p =
     printAndThrowUnrecoverableError' x (std_runtime_error pretty_function) p"

subsection \<open>split\<close>

text \<open>
  \<open>std::string::find(sep, pos)\<close>: the lowest index at or after \<open>pos\<close> that holds
  \<open>sep\<close>, \<open>npos\<close> (here \<open>None\<close>) when there is none. \<open>substr(pos, len)\<close> throws
  \<open>std::out_of_range\<close> when \<open>pos\<close> is beyond the size and returns at most \<open>len\<close>
  characters from \<open>pos\<close> otherwise; \<open>substr(pos)\<close> returns the rest of the string.
  The indices are \<open>std::size_t\<close>; \<open>end - start\<close> and \<open>end + 1\<close> are computed only
  for \<open>start \<le> end < size\<close>, where they do not wrap, so they are natural numbers here.
\<close>

function string_find :: "string \<Rightarrow> char \<Rightarrow> nat \<Rightarrow> nat option" where
  "string_find text sep pos =
     (if pos < length text
      then (if text ! pos = sep then Some pos else string_find text sep (pos + 1))
      else None)"
  by pat_completeness auto
termination
  by (relation "measure (\<lambda>(text, sep, pos). length text - pos)") auto

definition substr :: "string \<Rightarrow> nat \<Rightarrow> nat \<Rightarrow> thrown + string" where
  "substr text pos len =
     (if length text < pos then Inl std_out_of_range else Inr (take len (drop pos text)))"

definition substr_to_end :: "string \<Rightarrow> nat \<Rightarrow> thrown + string" where
  "substr_to_end text pos =
     (if length text < pos then Inl std_out_of_range else Inr (drop pos text))"

lemma string_find_Some:
  "string_find s sep pos = Some e \<Longrightarrow>
     pos \<le> e \<and> e < length s \<and> s ! e = sep \<and> sep \<notin> set (take (e - pos) (drop pos s))"
proof (induction s sep pos rule: string_find.induct)
  case (1 s sep pos)
  show ?case
  proof (cases "pos < length s")
    case False
    with "1.prems" show ?thesis by simp
  next
    case lt: True
    show ?thesis
    proof (cases "s ! pos = sep")
      case True
      with lt "1.prems" show ?thesis by simp
    next
      case False
      with lt "1.prems" have f: "string_find s sep (pos + 1) = Some e" by simp
      from "1.IH"[OF lt False f]
      have ih: "pos + 1 \<le> e" "e < length s" "s ! e = sep"
        "sep \<notin> set (take (e - (pos + 1)) (drop (pos + 1) s))" by simp_all
      have d: "drop pos s = s ! pos # drop (pos + 1) s"
        using lt by (simp add: Cons_nth_drop_Suc)
      have e: "e - pos = Suc (e - (pos + 1))" using ih(1) by simp
      show ?thesis using ih False by (simp add: d e)
    qed
  qed
qed

text \<open>
  The loop of \<open>split\<close>, on its variables \<open>start\<close> and \<open>tokens\<close>; \<open>split\<close> enters
  it with \<open>start = 0\<close> and no token. Each round moves \<open>start\<close> past the separator that
  was found, which is what makes the loop end.
\<close>

function split_loop :: "string \<Rightarrow> char \<Rightarrow> nat \<Rightarrow> string list \<Rightarrow> thrown + string list" where
  "split_loop text sep start tokens =
     (case string_find text sep start of
        Some end' \<Rightarrow>
          (case substr text start (end' - start) of
             Inl e \<Rightarrow> Inl e
           | Inr tok \<Rightarrow> split_loop text sep (end' + 1) (tokens @ [tok]))
      | None \<Rightarrow>
          (case substr_to_end text start of
             Inl e \<Rightarrow> Inl e
           | Inr tok \<Rightarrow> Inr (tokens @ [tok])))"
  by pat_completeness auto
termination
proof (relation "measure (\<lambda>(text, sep, start, tokens). length text - start)")
  show "wf (measure (\<lambda>(text, sep, start, tokens). length text - start))" by simp
next
  fix s :: string and sep start tokens x2 b
  assume "string_find s sep start = Some x2"
  from string_find_Some[OF this] have "start \<le> x2" and "x2 < length s" by simp_all
  then show "((s, sep, x2 + 1, tokens @ [b]), (s, sep, start, tokens))
         \<in> measure (\<lambda>(text, sep, start, tokens). length text - start)"
    by simp
qed

declare split_loop.simps [simp del]

definition split :: "string \<Rightarrow> char \<Rightarrow> thrown + string list" where
  "split text sep = split_loop text sep 0 []"

text \<open>
  Joining tokens with a delimiter, the inverse the claim about \<open>split\<close> speaks of: the
  tokens in order, with one \<open>sep\<close> between each two neighbours.
\<close>

fun join :: "char \<Rightarrow> string list \<Rightarrow> string" where
  "join sep [] = []"
| "join sep [t] = t"
| "join sep (t # ts) = t @ sep # join sep ts"

section \<open>The NV12 planar frame (NV12_PlanarFrame.hpp)\<close>

text \<open>
  \<^verbatim>\<open>template <unsigned int width_, unsigned int height_> class VideoFrame<NV_12_PLANAR, width_, height_>\<close>.
  The template arguments are the frame's geometry; \<open>mCurrPixel\<close> is the member the
  accessor would return a reference to. A pixel is \<open>Pixel<unsigned char, unsigned char,
  unsigned char>\<close>: three bytes. The coordinates are \<open>uint16_t\<close>.
\<close>

type_synonym Pixel = "8 word \<times> 8 word \<times> 8 word"

record NV12_VideoFrame =
  width' :: uint
  height' :: uint
  mCurrPixel :: Pixel

text \<open>
  \<open>pixelAt\<close> calls the macro and then has \<^verbatim>\<open>return mCurrPixel;\<close>; \<open>setPixelAt\<close>
  calls the macro and ends. A call returns what it threw or its result, the frame after
  the call (for \<open>setPixelAt\<close>, which is not const) and the process state.
\<close>

definition pixelAt ::
  "string \<Rightarrow> NV12_VideoFrame \<Rightarrow> 16 word \<Rightarrow> 16 word \<Rightarrow> process \<Rightarrow> (thrown + Pixel) \<times> process" where
  "pixelAt pretty_function this x y p =
     (case printAndThrowUnrecoverableError pretty_function ''NOT IMPLEMENTED YET! TODO!'' p of
        (Inl e, p') \<Rightarrow> (Inl e, p')
      | (Inr _, p') \<Rightarrow> (Inr (mCurrPixel this), p'))"

definition setPixelAt ::
  "string \<Rightarrow> NV12_VideoFrame \<Rightarrow> Pixel \<Rightarrow> 16 word \<Rightarrow> 16 word \<Rightarrow> process
     \<Rightarrow> (thrown + unit) \<times> NV12_VideoFrame \<times> process" where
  "setPixelAt pretty_function this pixel x y p =
     (case printAndThrowUnrecoverableError pretty_function ''NOT IMPLEMENTED YET! TODO!'' p of
        (Inl e, p') \<Rightarrow> (Inl e, this, p')
      | (Inr _, p') \<Rightarrow> (Inr (), this, p'))"

section \<open>The pipeline core, as the specification describes it\<close>

subsection \<open>Frame holder\<close>

text \<open>
  Modelled from the spec: the Frame Holder (\<open>VideoFrameHolder\<close>, which \<open>main\<close> uses as
  \<open>vFh1\<close> and \<open>vFh2\<close>, is not among the sources). It "owns exactly one current frame
  slot plus a status code"; its initial state is \<open>NO_DATA\<close>, "nothing ever produced".
  The slot holds a frame object from the start (\<open>blank\<close>, the frame the holder is
  constructed with); whether it counts is told by the status.
\<close>

record 'f FrameHolder =
  slot :: 'f
  holder_status :: MediaStatus

text \<open>
  Modelled from the spec: the Frame Holder as constructed, in state \<open>NO_DATA\<close>
  ("initial; nothing ever produced").
\<close>

definition FrameHolder_new :: "'f \<Rightarrow> 'f FrameHolder" where
  "FrameHolder_new blank = \<lparr>slot = blank, holder_status = MEDIA_NO_DATA\<rparr>"

text \<open>
  Modelled from the spec: \<open>status()\<close> of the Frame Holder, "pure observation, no side
  effect".
\<close>

definition status :: "'f FrameHolder \<Rightarrow> MediaStatus" where
  "status h = holder_status h"

text \<open>
  Modelled from the spec: \<open>push(frame)\<close> of the Frame Holder, "producer-only; stores the
  frame, sets status READY. Always succeeds; never blocks."
\<close>

definition push :: "'f \<Rightarrow> 'f FrameHolder \<Rightarrow> 'f FrameHolder" where
  "push f h = h\<lparr>slot := f, holder_status := MEDIA_READY\<rparr>"

text \<open>
  Modelled from the spec: \<open>get()\<close> of the Frame Holder, "consumer-only; returns the
  current frame if status is READY; otherwise raises a Status Signal carrying the current
  status code. Never blocks." A read does not consume ("repeated get() calls while status
  remains READY all return the same frame reference"), so the holder after the call is
  the holder before it. The call is one step: there is no loop and no wait in it.
\<close>

definition get :: "'f FrameHolder \<Rightarrow> (thrown + 'f) \<times> 'f FrameHolder" where
  "get h =
     (if holder_status h = MEDIA_READY then (Inr (slot h), h)
      else (Inl (MediaException_thrown (MediaException_ctor (holder_status h))), h))"

subsection \<open>Ring-buffered frame holder\<close>

text \<open>
  Modelled from the spec: the ring-buffered Frame Holder of a buffered producer (not
  among the sources, which only hold its default size \<open>encodedVideoFrameBufferSize\<close>):
  "a small ring of up to N slots, N configurable, default 100". \<open>ring\<close> lists the unread
  frames, oldest first; \<open>overflows\<close> counts the overflow events.
\<close>

record 'f RingHolder =
  capacity :: nat
  ring :: "'f list"
  overflows :: nat

text \<open>
  Modelled from the spec: the ring-buffered holder as constructed with capacity \<open>n\<close>
  ("N configurable"): empty, no overflow counted.
\<close>

definition RingHolder_new :: "nat \<Rightarrow> 'f RingHolder" where
  "RingHolder_new n = \<lparr>capacity = n, ring = [], overflows = 0\<rparr>"

text \<open>
  Modelled from the spec: the ring-buffered holder of default capacity ("default 100"),
  the value of \<open>encodedVideoFrameBufferSize\<close>.
\<close>

definition RingHolder_default :: "'f RingHolder" where
  "RingHolder_default = RingHolder_new (unat encodedVideoFrameBufferSize)"

text \<open>
  Modelled from the spec: a push on the ring-buffered holder: "buffered producers instead
  advance a bounded ring and drop the oldest unread frame, counted as an overflow
  (observable, not fatal)". While a slot is free the frame is appended; on a full ring
  the oldest frame goes and the overflow is counted.
\<close>

definition ring_push :: "'f \<Rightarrow> 'f RingHolder \<Rightarrow> 'f RingHolder" where
  "ring_push f h =
     (if length (ring h) < capacity h then h\<lparr>ring := ring h @ [f]\<rparr>
      else h\<lparr>ring := tl (ring h @ [f]), overflows := overflows h + 1\<rparr>)"

text \<open>
  Modelled from the spec: pushes of the frames \<open>fs\<close>, first to last, with no read
  between them ("unread pushes").
\<close>

definition ring_push_all :: "'f list \<Rightarrow> 'f RingHolder \<Rightarrow> 'f RingHolder" where
  "ring_push_all fs h = fold ring_push fs h"

subsection \<open>Typed pipe operator\<close>

text \<open>
  The format tags are empty classes (\<open>class NV_12_PLANAR {};\<close> in the sources; \<open>main\<close>
  names \<open>YUYV422_PACKED\<close>, \<open>YUV420_PLANAR\<close> and \<open>H264\<close>). A frame type is the triple of
  template arguments: format, width and height, the last two \<open>unsigned int\<close>.
\<close>

datatype format = YUYV422_PACKED | YUV420_PLANAR | NV_12_PLANAR | H264

type_synonym frame_type = "format \<times> uint \<times> uint"

text \<open>
  Modelled from the spec: the build-time check of the pipe operator (\<open>operator>>\<close> is
  not among the sources): "connect(producer, consumer) is only well-formed when
  producer's output type and consumer's input type are the identical (format, width,
  height) triple". The check reads the two types and nothing else; it is made when the
  pipeline is built, before any frame exists.
\<close>

datatype build_result = Accepted | Rejected

definition connect :: "frame_type \<Rightarrow> frame_type \<Rightarrow> build_result" where
  "connect producer_output consumer_input =
     (if producer_output = consumer_input then Accepted else Rejected)"

text \<open>
  Modelled from the spec: building a pipeline, given its connections as (output type of
  the producer, input type of the consumer): "an attempt to connect incompatible types
  must be rejected before the program runs". The build fails when one connection is
  rejected.
\<close>

definition build :: "(frame_type \<times> frame_type) list \<Rightarrow> build_result" where
  "build connections =
     (if list_all (\<lambda>(out, inp). connect out inp = Accepted) connections
      then Accepted else Rejected)"

text \<open>
  The pipes \<open>main\<close> builds, each as (output type of the producer, input type of the
  consumer), from the declarations of \<open>vGrab\<close>, \<open>vFh1\<close>, \<open>vConv\<close>, \<open>vEnc\<close>,
  \<open>vFh2\<close>, \<open>vMux\<close> and \<open>vStream\<close>, with \<open>WIDTH\<close> 640 and \<open>HEIGHT\<close> 480. The
  converter is declared with both its types; the encoder consumes \<open>YUV420_PLANAR\<close> and
  produces \<open>H264\<close>.
\<close>

definition WIDTH :: uint where
  "WIDTH = 640"

definition HEIGHT :: uint where
  "HEIGHT = 480"

definition main_pipes :: "(frame_type \<times> frame_type) list" where
  "main_pipes =
     (let vGrab_out = (YUYV422_PACKED, WIDTH, HEIGHT);
          vFh1 = (YUYV422_PACKED, WIDTH, HEIGHT);
          vConv_in = (YUYV422_PACKED, WIDTH, HEIGHT);
          vConv_out = (YUV420_PLANAR, WIDTH, HEIGHT);
          vEnc_in = (YUV420_PLANAR, WIDTH, HEIGHT);
          vEnc_out = (H264, WIDTH, HEIGHT);
          vFh2 = (H264, WIDTH, HEIGHT);
          vMux_in = (H264, WIDTH, HEIGHT);
          vStream_in = (H264, WIDTH, HEIGHT)
      in [(vGrab_out, vFh1), (vFh1, vConv_in), (vConv_out, vEnc_in), (vEnc_out, vFh2),
          (vFh2, vMux_in), (vFh2, vStream_in)])"

text \<open>
  Modelled from the spec: what the pipe operator does with the producer's answer (its
  run-time behaviour, section 4.3): "on success, forward the frame to consumer.push(...);
  on a Status Signal from the producer, propagate the same status to the consumer's edge
  state and take no further action this iteration". Anything else that was thrown is not
  a status signal and passes through.
\<close>

fun forward :: "thrown + 'f \<Rightarrow> 'f FrameHolder \<Rightarrow> thrown + 'f FrameHolder" where
  "forward (Inr f) consumer = Inr (push f consumer)"
| "forward (Inl (MediaException_thrown me)) consumer =
     Inr (consumer\<lparr>holder_status := fst (cause me)\<rparr>)"
| "forward (Inl e) consumer = Inl e"

text \<open>
  Modelled from the spec: the pipe operator between two Frame Holders: "attempt
  producer.get()", then forward as above. It returns the two holders after the call.
\<close>

definition pipe ::
  "'f FrameHolder \<Rightarrow> 'f FrameHolder \<Rightarrow> thrown + 'f FrameHolder \<times> 'f FrameHolder" where
  "pipe producer consumer =
     (case get producer of (r, producer') \<Rightarrow>
        (case forward r consumer of
           Inl e \<Rightarrow> Inl e
         | Inr consumer' \<Rightarrow> Inr (producer', consumer')))"

subsection \<open>Runs of a frame holder\<close>

text \<open>
  Modelled from the spec: what can happen to a Frame Holder after its construction. The
  producer side pushes a frame (\<open>Pushed\<close>), a pipe operator passes on the status of a
  signal its producer raised (\<open>Signalled\<close>, done by \<open>forward\<close>), or the consumer calls
  \<open>get()\<close> (\<open>Read\<close>).
\<close>

datatype 'f holder_event = Pushed 'f | Signalled MediaStatus | Read

text \<open>
  Modelled from the spec: a run of such events on a holder. It returns what each
  \<open>get()\<close> of the run reported, in order, and the holder at the end; \<open>Inl\<close> is for an
  exception that is not a status signal and ends the run.
\<close>

fun holder_run ::
  "'f holder_event list \<Rightarrow> 'f FrameHolder \<Rightarrow> thrown + (thrown + 'f) list \<times> 'f FrameHolder" where
  "holder_run [] h = Inr ([], h)"
| "holder_run (Pushed f # evs) h = holder_run evs (push f h)"
| "holder_run (Signalled s # evs) h =
     (case forward (Inl (MediaException_thrown (MediaException_ctor s))) h of
        Inl e \<Rightarrow> Inl e
      | Inr h' \<Rightarrow> holder_run evs h')"
| "holder_run (Read # evs) h =
     (case get h of (r, h') \<Rightarrow>
        (case holder_run evs h' of
           Inl e \<Rightarrow> Inl e
         | Inr (rs, h'') \<Rightarrow> Inr (r # rs, h'')))"

subsection \<open>Capture device\<close>

text \<open>
  Modelled from the spec: the device descriptor of a capture adapter (\<open>V4L2Grabber\<close> is
  not among the sources): it "carries the device-lifecycle status".
\<close>

record Device =
  device_status :: DeviceStatus

text \<open>
  Modelled from the spec: what the underlying source of a capture device does in one
  iteration of the driving loop: it delivers a frame, delivers nothing, or is lost ("loss
  of the underlying source").
\<close>

datatype 'f source_event = FrameDelivered 'f | NothingDelivered | SourceLost

text \<open>
  Modelled from the spec: the pull on a capture device. Frames may be pulled in
  \<open>CAN_PRODUCE\<close> (\<open>DEV_CAN_GRAB\<close>) only; the device goes to \<open>DISCONNECTED\<close> "on loss of
  the underlying source", and from then on it has no data: its answer is the status
  signal \<open>NO_DATA\<close>, never another exception. A device that can produce and got nothing
  this iteration answers \<open>NOT_READY\<close>.
\<close>

definition grab :: "'f source_event \<Rightarrow> Device \<Rightarrow> (thrown + 'f) \<times> Device" where
  "grab ev d =
     (if device_status d = DEV_CAN_GRAB then
        (case ev of
           FrameDelivered f \<Rightarrow> (Inr f, d)
         | NothingDelivered \<Rightarrow>
             (Inl (MediaException_thrown (MediaException_ctor MEDIA_NOT_READY)), d)
         | SourceLost \<Rightarrow>
             (Inl (MediaException_thrown (MediaException_ctor MEDIA_NO_DATA)),
              d\<lparr>device_status := DEV_DISCONNECTED\<rparr>))
      else (Inl (MediaException_thrown (MediaException_ctor MEDIA_NO_DATA)), d))"

text \<open>
  One iteration of the loop of \<open>main\<close>, as far as the device and its holder go:
  \<^verbatim>\<open>vGrab >> vFh1;\<close> and then \<^verbatim>\<open>try { ... vFh1.get() ... } catch (const MediaException& me) {}\<close>.
  The status signal of \<open>get()\<close> is caught and the loop goes on; any other exception
  leaves the loop (\<open>Inl\<close>). The iteration returns what \<open>get()\<close> reported.
\<close>

definition loop_iteration ::
  "'f source_event \<Rightarrow> Device \<times> 'f FrameHolder
     \<Rightarrow> thrown + (thrown + 'f) \<times> Device \<times> 'f FrameHolder" where
  "loop_iteration ev s =
     (case s of (d, h) \<Rightarrow>
        (case grab ev d of (r, d') \<Rightarrow>
           (case forward r h of
              Inl e \<Rightarrow> Inl e
            | Inr h' \<Rightarrow>
                (case get h' of
                   (Inr f, h'') \<Rightarrow> Inr (Inr f, d', h'')
                 | (Inl (MediaException_thrown me), h'') \<Rightarrow>
                     Inr (Inl (MediaException_thrown me), d', h'')
                 | (Inl e, h'') \<Rightarrow> Inl e))))"

text \<open>
  The loop over the events of a run: \<open>Inl\<close> when an exception ended it, otherwise the
  reports of all its \<open>get()\<close> calls and the final state.
\<close>

fun drive ::
  "'f source_event list \<Rightarrow> Device \<times> 'f FrameHolder
     \<Rightarrow> thrown + (thrown + 'f) list \<times> Device \<times> 'f FrameHolder" where
  "drive [] s = Inr ([], s)"
| "drive (ev # evs) s =
     (case loop_iteration ev s of
        Inl e \<Rightarrow> Inl e
      | Inr (r, s') \<Rightarrow>
          (case drive evs s' of
             Inl e \<Rightarrow> Inl e
           | Inr (rs, s'') \<Rightarrow> Inr (r # rs, s'')))"

section \<open>Status vocabulary\<close>

text \<open>
  Claim C7. The data-availability values are exactly the four enumerators of
  \<open>MediaStatus\<close> (NO_DATA, BUFFERING, READY, NOT_READY) and the device-lifecycle values
  are exactly the seven enumerators of \<open>DeviceStatus\<close> (OPEN_ERROR, CONFIGURE_ERROR,
  CLOSE_ERROR, INITIALIZING, CONFIGURED, CAN_PRODUCE which the code names DEV_CAN_GRAB,
  DISCONNECTED): each list of enumerators has no repetition and covers its type, their
  integer values are the positions 0..3 and 0..6. A status of either kind that a stage
  shows is a value of its enumeration and so exactly one of the values listed.
\<close>

theorem status_vocabulary_exact:
  "set MediaStatus_enumerators = UNIV
   \<and> set MediaStatus_enumerators = {MEDIA_NO_DATA, MEDIA_BUFFERING, MEDIA_READY, MEDIA_NOT_READY}
   \<and> distinct MediaStatus_enumerators \<and> length MediaStatus_enumerators = 4
   \<and> map MediaStatus_value MediaStatus_enumerators = [0, 1, 2, 3]
   \<and> set DeviceStatus_enumerators = UNIV
   \<and> set DeviceStatus_enumerators =
        {OPEN_DEV_ERROR, CONFIGURE_DEV_ERROR, CLOSE_DEV_ERROR, DEV_INITIALIZING,
         DEV_CONFIGURED, DEV_CAN_GRAB, DEV_DISCONNECTED}
   \<and> distinct DeviceStatus_enumerators \<and> length DeviceStatus_enumerators = 7
   \<and> map DeviceStatus_value DeviceStatus_enumerators = [0, 1, 2, 3, 4, 5, 6]"
proof -
  have m: "set MediaStatus_enumerators = UNIV"
  proof -
    have "s \<in> set MediaStatus_enumerators" for s
      by (cases s) (simp_all add: MediaStatus_enumerators_def)
    then show ?thesis by blast
  qed
  have d: "set DeviceStatus_enumerators = UNIV"
  proof -
    have "s \<in> set DeviceStatus_enumerators" for s
      by (cases s) (simp_all add: DeviceStatus_enumerators_def)
    then show ?thesis by blast
  qed
  have m': "{MEDIA_NO_DATA, MEDIA_BUFFERING, MEDIA_READY, MEDIA_NOT_READY}
              = set MediaStatus_enumerators"
    by (auto simp: MediaStatus_enumerators_def)
  have d': "{OPEN_DEV_ERROR, CONFIGURE_DEV_ERROR, CLOSE_DEV_ERROR, DEV_INITIALIZING,
             DEV_CONFIGURED, DEV_CAN_GRAB, DEV_DISCONNECTED} = set DeviceStatus_enumerators"
    by (auto simp: DeviceStatus_enumerators_def)
  have lm: "distinct MediaStatus_enumerators \<and> length MediaStatus_enumerators = 4
            \<and> map MediaStatus_value MediaStatus_enumerators = [0, 1, 2, 3]"
    by (simp add: MediaStatus_enumerators_def)
  have ld: "distinct DeviceStatus_enumerators \<and> length DeviceStatus_enumerators = 7
            \<and> map DeviceStatus_value DeviceStatus_enumerators = [0, 1, 2, 3, 4, 5, 6]"
    by (simp add: DeviceStatus_enumerators_def)
  show ?thesis
    unfolding m' d' using m d lm ld by simp
qed

section \<open>Status signal\<close>

text \<open>
  Claim C8. A status signal holds exactly one status code: a \<open>MediaException\<close> built
  with cause \<open>s\<close> reports \<open>s\<close>, unchanged, from \<open>cause()\<close>, for every status code \<open>s\<close>;
  the call leaves the signal as it was, so asking again gives the same answer.
\<close>

theorem MediaException_cause_roundtrip:
  "fst (cause (MediaException_ctor s)) = s
   \<and> snd (cause (MediaException_ctor s)) = MediaException_ctor s
   \<and> fst (cause (snd (cause e))) = fst (cause e)
   \<and> snd (cause e) = e
   \<and> (MediaException_ctor s = MediaException_ctor s') = (s = s')"
  by (simp add: cause_def MediaException_ctor_def)

section \<open>Encoder defaults\<close>

text \<open>
  Claim C10. \<open>DEFAULT_BITRATE\<close> and \<open>DEFAULT_GOPSIZE\<close>, unsigned and initialised with
  \<open>-1\<close>, hold \<open>2 ^ 32 - 1 = 4294967295\<close>: read as unsigned they are not negative, they
  are the largest unsigned value (adding one wraps to zero, every value is below or equal
  to them), and only the two's complement reading of the same bits is \<open>-1\<close>.
\<close>

theorem DEFAULT_BITRATE_GOPSIZE_wrap:
  "unat DEFAULT_BITRATE = 4294967295 \<and> unat DEFAULT_GOPSIZE = 4294967295
   \<and> uint DEFAULT_BITRATE = 2 ^ 32 - 1 \<and> uint DEFAULT_GOPSIZE = 2 ^ 32 - 1
   \<and> \<not> uint DEFAULT_BITRATE < 0 \<and> \<not> uint DEFAULT_GOPSIZE < 0
   \<and> uint DEFAULT_BITRATE \<noteq> - 1 \<and> uint DEFAULT_GOPSIZE \<noteq> - 1
   \<and> sint DEFAULT_BITRATE = - 1 \<and> sint DEFAULT_GOPSIZE = - 1
   \<and> DEFAULT_BITRATE + 1 = 0 \<and> DEFAULT_GOPSIZE + 1 = 0
   \<and> (\<forall>x :: uint. x \<le> DEFAULT_BITRATE) \<and> (\<forall>x :: uint. x \<le> DEFAULT_GOPSIZE)
   \<and> encodedVideoFrameBufferSize < DEFAULT_BITRATE"
  by (simp add: DEFAULT_BITRATE_def DEFAULT_GOPSIZE_def encodedVideoFrameBufferSize_def
      unsigned_minus_1_eq_mask mask_eq_exp_minus_1)

section \<open>Splitting a string at a separator\<close>

lemma string_find_None:
  "string_find s sep pos = None \<Longrightarrow> sep \<notin> set (drop pos s)"
proof (induction s sep pos rule: string_find.induct)
  case (1 s sep pos)
  show ?case
  proof (cases "pos < length s")
    case False
    then show ?thesis by simp
  next
    case lt: True
    with "1.prems" have ne: "s ! pos \<noteq> sep" by (simp split: if_splits)
    with lt "1.prems" have f: "string_find s sep (pos + 1) = None" by simp
    have d: "drop pos s = s ! pos # drop (pos + 1) s"
      using lt by (simp add: Cons_nth_drop_Suc)
    from "1.IH"[OF lt ne f] ne show ?thesis by (simp add: d)
  qed
qed

lemma join_Cons: "ws \<noteq> [] \<Longrightarrow> join sep (w # ws) = w @ sep # join sep ws"
  by (cases ws) simp_all

lemma count_list_notin: "x \<notin> set xs \<Longrightarrow> count_list xs x = 0"
  by (induction xs) auto

lemma split_loop_tokens:
  "start \<le> length s \<Longrightarrow>
     \<exists>ws. split_loop s sep start tokens = Inr (tokens @ ws)
        \<and> length ws = count_list (drop start s) sep + 1
        \<and> (\<forall>w \<in> set ws. sep \<notin> set w)
        \<and> join sep ws = drop start s"
proof (induction s sep start tokens rule: split_loop.induct)
  case (1 s sep start tokens)
  show ?case
  proof (cases "string_find s sep start")
    case None
    from string_find_None[OF None] have n: "sep \<notin> set (drop start s)" .
    have "split_loop s sep start tokens = Inr (tokens @ [drop start s])"
      using None "1.prems" by (subst split_loop.simps) (simp add: substr_to_end_def)
    with n show ?thesis by (simp add: count_list_notin)
  next
    case (Some e)
    from string_find_Some[OF Some]
    have b: "start \<le> e" "e < length s" "s ! e = sep"
      and n: "sep \<notin> set (take (e - start) (drop start s))" by simp_all
    define tok where "tok = take (e - start) (drop start s)"
    have sub: "substr s start (e - start) = Inr tok"
      using "1.prems" by (simp add: substr_def tok_def)
    from b have le: "e + 1 \<le> length s" by simp
    from "1.IH"[OF Some sub le] obtain ws where
      ws: "split_loop s sep (e + 1) (tokens @ [tok]) = Inr ((tokens @ [tok]) @ ws)"
        "length ws = count_list (drop (e + 1) s) sep + 1"
        "\<forall>w \<in> set ws. sep \<notin> set w"
        "join sep ws = drop (e + 1) s"
      by blast
    have d: "drop start s = tok @ sep # drop (e + 1) s"
    proof -
      have "drop start s = take (e - start) (drop start s) @ drop (e - start) (drop start s)"
        by (simp only: append_take_drop_id)
      also have "drop (e - start) (drop start s) = drop e s" using b(1) by simp
      also have "drop e s = s ! e # drop (e + 1) s" using b(2) by (simp add: Cons_nth_drop_Suc)
      finally show ?thesis by (simp add: tok_def b(3))
    qed
    have ne: "ws \<noteq> []" using ws(2) by auto
    have run: "split_loop s sep start tokens = Inr (tokens @ (tok # ws))"
      using Some sub ws(1) by (subst split_loop.simps) simp
    from n have n': "sep \<notin> set tok" by (simp add: tok_def)
    have cnt: "length (tok # ws) = count_list (drop start s) sep + 1"
      using ws(2) n' by (simp add: d count_list_notin)
    have nos: "\<forall>w \<in> set (tok # ws). sep \<notin> set w"
      using ws(3) n' by simp
    have jn: "join sep (tok # ws) = drop start s"
      using ws(4) ne by (simp add: join_Cons d)
    from run cnt nos jn show ?thesis by blast
  qed
qed

text \<open>
  Claim C9. For every string and separator, \<open>split\<close> returns (it throws nothing) a
  list of tokens that is not empty and has one token more than the text has separators;
  no token contains the separator; joining the tokens with the separator gives the text
  back; a text without the separator comes back as the one token that is the text.
\<close>

theorem split_tokens:
  "\<exists>tokens. split s sep = Inr tokens
      \<and> tokens \<noteq> []
      \<and> length tokens = count_list s sep + 1
      \<and> (\<forall>t \<in> set tokens. sep \<notin> set t)
      \<and> join sep tokens = s
      \<and> (sep \<notin> set s \<longrightarrow> tokens = [s])"
proof -
  from split_loop_tokens[of 0 s sep "[]"] obtain ws where
    ws: "split s sep = Inr ws" "length ws = count_list s sep + 1"
      "\<forall>w \<in> set ws. sep \<notin> set w" "join sep ws = s"
    by (auto simp: split_def)
  have ne: "ws \<noteq> []" using ws(2) by auto
  have one: "ws = [s]" if "sep \<notin> set s"
  proof -
    from that ws(2) have "length ws = 1" by (simp add: count_list_notin)
    then obtain w where "ws = [w]" by (cases ws) auto
    with ws(4) show ?thesis by simp
  qed
  from ws ne one show ?thesis by blast
qed

theorem split_tokens_witness:
  "CHR '','' \<notin> set ''stream.ts''
   \<and> split ''stream.ts'' CHR '','' = Inr [''stream.ts'']
   \<and> split ''a,b,,c'' CHR '','' = Inr [''a'', ''b'', '''', ''c'']
   \<and> ''b'' \<in> set [''a'', ''b'', '''', ''c''] \<and> CHR '','' \<notin> set ''b''
   \<and> join CHR '','' [''a'', ''b'', '''', ''c''] = ''a,b,,c''
   \<and> count_list ''a,b,,c'' CHR '','' + 1 = length [''a'', ''b'', '''', ''c'']"
proof -
  have h: "CHR '','' \<notin> set ''stream.ts''" by simp
  from split_tokens[of "''stream.ts''" "CHR '',''"] h
  have a: "split ''stream.ts'' CHR '','' = Inr [''stream.ts'']" by auto
  have b: "split ''a,b,,c'' CHR '','' = Inr [''a'', ''b'', '''', ''c'']"
    by code_simp
  show ?thesis using h a b by simp
qed

section \<open>Pixel access of the NV12 planar frame\<close>

lemma pixelAt_eq:
  "pixelAt pf this x y p =
     (Inl (std_runtime_error pf),
      cerr_insert [CHR 0x0A] (cerr_insert ''NOT IMPLEMENTED YET! TODO!'' p))"
  by (simp add: pixelAt_def printAndThrowUnrecoverableError_def
      printAndThrowUnrecoverableError'_def)

lemma setPixelAt_eq:
  "setPixelAt pf this pixel x y p =
     (Inl (std_runtime_error pf), this,
      cerr_insert [CHR 0x0A] (cerr_insert ''NOT IMPLEMENTED YET! TODO!'' p))"
  by (simp add: setPixelAt_def printAndThrowUnrecoverableError_def
      printAndThrowUnrecoverableError'_def)

lemma cerr_insert_not_good: "\<not> cerr_good p \<Longrightarrow> cerr_insert s p = p"
  by (simp add: cerr_insert_def)

lemma cerr_insert_taken:
  "\<exists>k. cerr (cerr_insert s p) = cerr p @ take k s
       \<and> (k < length s \<longrightarrow> \<not> cerr_good (cerr_insert s p))"
proof (cases "cerr_good p")
  case False
  then have "cerr (cerr_insert s p) = cerr p @ take 0 s"
    "0 < length s \<longrightarrow> \<not> cerr_good (cerr_insert s p)"
    by (simp_all add: cerr_insert_def)
  then show ?thesis by blast
next
  case good: True
  show ?thesis
  proof (cases "cerr_room p")
    case None
    with good have "cerr (cerr_insert s p) = cerr p @ take (length s) s"
      by (simp add: cerr_insert_def)
    then show ?thesis by blast
  next
    case (Some n)
    show ?thesis
    proof (cases "length s \<le> n")
      case True
      with good Some have "cerr (cerr_insert s p) = cerr p @ take (length s) s"
        by (simp add: cerr_insert_def)
      then show ?thesis by blast
    next
      case False
      with good Some have "cerr (cerr_insert s p) = cerr p @ take n s"
        "\<not> cerr_good (cerr_insert s p)"
        by (simp_all add: cerr_insert_def)
      then show ?thesis by blast
    qed
  qed
qed

lemma cerr_insert_line_taken:
  "\<exists>k. cerr (cerr_insert [c] (cerr_insert s p)) = cerr p @ take k (s @ [c])"
proof -
  from cerr_insert_taken[of s p] obtain k where
    k: "cerr (cerr_insert s p) = cerr p @ take k s"
      "k < length s \<longrightarrow> \<not> cerr_good (cerr_insert s p)"
    by blast
  show ?thesis
  proof (cases "k < length s")
    case True
    with k(2) have "cerr_insert [c] (cerr_insert s p) = cerr_insert s p"
      by (simp add: cerr_insert_not_good)
    with k(1) True have "cerr (cerr_insert [c] (cerr_insert s p)) = cerr p @ take k (s @ [c])"
      by simp
    then show ?thesis by blast
  next
    case False
    from cerr_insert_taken[of "[c]" "cerr_insert s p"] obtain j where
      "cerr (cerr_insert [c] (cerr_insert s p)) = cerr (cerr_insert s p) @ take j [c]"
      by blast
    with k(1) False
    have "cerr (cerr_insert [c] (cerr_insert s p)) = cerr p @ take (length s + j) (s @ [c])"
      by simp
    then show ?thesis by blast
  qed
qed

lemma cerr_insert_line_good:
  assumes "cerr_good p"
    and "case cerr_room p of None \<Rightarrow> True | Some n \<Rightarrow> length s + 1 \<le> n"
  shows "cerr (cerr_insert [c] (cerr_insert s p)) = cerr p @ s @ [c]"
  using assms by (cases "cerr_room p") (simp_all add: cerr_insert_def)

text \<open>
  Claim C2, as stated, fails where the error stream is not in a good state: the call
  throws its \<open>std::runtime_error\<close>, but no diagnostic is written.
\<close>

theorem NV12_diagnostic_counterexample:
  "fst (pixelAt ''pixelAt'' \<lparr>width' = 640, height' = 480, mCurrPixel = (0, 0, 0)\<rparr> 0 0
          \<lparr>cerr = [], cerr_good = False, cerr_room = None\<rparr>)
     = Inl (std_runtime_error ''pixelAt'')
   \<and> cerr (snd (pixelAt ''pixelAt'' \<lparr>width' = 640, height' = 480, mCurrPixel = (0, 0, 0)\<rparr> 0 0
          \<lparr>cerr = [], cerr_good = False, cerr_room = None\<rparr>)) = []
   \<and> cerr (snd (pixelAt ''pixelAt'' \<lparr>width' = 640, height' = 480, mCurrPixel = (0, 0, 0)\<rparr> 0 0
          \<lparr>cerr = [], cerr_good = True, cerr_room = Some 0\<rparr>)) = []"
  by (simp add: pixelAt_eq cerr_insert_def)

text \<open>
  Claim C2, amended. For the NV_12_PLANAR frame, every call of \<open>pixelAt\<close> or
  \<open>setPixelAt\<close>, at any coordinates and in any state of the error stream, first inserts
  the diagnostic message and a newline into the error stream and then throws a
  \<open>std::runtime_error\<close>. What is thrown is never a \<open>MediaException\<close> (so it carries no
  status code), neither call returns normally, and \<open>setPixelAt\<close> leaves the frame as it
  was. The whole diagnostic line is written when the stream is good and its sink takes
  the line; nothing is written when the stream is not good; in every case what is
  written is a beginning of the line.
\<close>

theorem NV12_pixel_access_unrecoverable:
  "fst (pixelAt pf this x y p) = Inl (std_runtime_error pf)
   \<and> fst (setPixelAt pf this pixel x y p) = Inl (std_runtime_error pf)
   \<and> snd (pixelAt pf this x y p)
        = cerr_insert [CHR 0x0A] (cerr_insert ''NOT IMPLEMENTED YET! TODO!'' p)
   \<and> snd (setPixelAt pf this pixel x y p)
        = (this, cerr_insert [CHR 0x0A] (cerr_insert ''NOT IMPLEMENTED YET! TODO!'' p))
   \<and> (\<forall>me. fst (pixelAt pf this x y p) \<noteq> Inl (MediaException_thrown me))
   \<and> (\<forall>me. fst (setPixelAt pf this pixel x y p) \<noteq> Inl (MediaException_thrown me))
   \<and> (\<forall>px. fst (pixelAt pf this x y p) \<noteq> Inr px)
   \<and> fst (setPixelAt pf this pixel x y p) \<noteq> Inr ()
   \<and> (cerr_good p
        \<and> (case cerr_room p of
              None \<Rightarrow> True
            | Some n \<Rightarrow> length ''NOT IMPLEMENTED YET! TODO!'' + 1 \<le> n) \<longrightarrow>
        cerr (snd (pixelAt pf this x y p))
          = cerr p @ ''NOT IMPLEMENTED YET! TODO!'' @ [CHR 0x0A]
        \<and> cerr (snd (snd (setPixelAt pf this pixel x y p)))
          = cerr p @ ''NOT IMPLEMENTED YET! TODO!'' @ [CHR 0x0A])
   \<and> (\<not> cerr_good p \<longrightarrow>
        snd (pixelAt pf this x y p) = p \<and> snd (snd (setPixelAt pf this pixel x y p)) = p)
   \<and> (\<exists>k. cerr (snd (pixelAt pf this x y p))
          = cerr p @ take k (''NOT IMPLEMENTED YET! TODO!'' @ [CHR 0x0A]))
   \<and> (\<exists>k. cerr (snd (snd (setPixelAt pf this pixel x y p)))
          = cerr p @ take k (''NOT IMPLEMENTED YET! TODO!'' @ [CHR 0x0A]))"
proof -
  let ?msg = "''NOT IMPLEMENTED YET! TODO!''"
  let ?q = "cerr_insert [CHR 0x0A] (cerr_insert ?msg p)"
  have r: "pixelAt pf this x y p = (Inl (std_runtime_error pf), ?q)"
    "setPixelAt pf this pixel x y p = (Inl (std_runtime_error pf), this, ?q)"
    by (rule pixelAt_eq, rule setPixelAt_eq)
  have whole: "cerr_good p
        \<and> (case cerr_room p of None \<Rightarrow> True | Some n \<Rightarrow> length ?msg + 1 \<le> n) \<longrightarrow>
        cerr ?q = cerr p @ ?msg @ [CHR 0x0A]"
    using cerr_insert_line_good[of p ?msg "CHR 0x0A"] by blast
  have part: "\<exists>k. cerr ?q = cerr p @ take k (?msg @ [CHR 0x0A])"
    by (rule cerr_insert_line_taken)
  show ?thesis
    unfolding r fst_conv snd_conv
    using whole part by (auto simp: cerr_insert_not_good)
qed

theorem NV12_pixel_access_unrecoverable_witness:
  "cerr_good \<lparr>cerr = ''log: '', cerr_good = True, cerr_room = None\<rparr>
   \<and> cerr (snd (pixelAt ''pixelAt'' \<lparr>width' = 640, height' = 480, mCurrPixel = (0, 0, 0)\<rparr>
          3 4 \<lparr>cerr = ''log: '', cerr_good = True, cerr_room = None\<rparr>))
       = ''log: NOT IMPLEMENTED YET! TODO!'' @ [CHR 0x0A]
   \<and> \<not> cerr_good \<lparr>cerr = ''log: '', cerr_good = False, cerr_room = None\<rparr>
   \<and> snd (pixelAt ''pixelAt'' \<lparr>width' = 640, height' = 480, mCurrPixel = (0, 0, 0)\<rparr>
          3 4 \<lparr>cerr = ''log: '', cerr_good = False, cerr_room = None\<rparr>)
       = \<lparr>cerr = ''log: '', cerr_good = False, cerr_room = None\<rparr>"
proof -
  let ?f = "\<lparr>width' = 640, height' = 480, mCurrPixel = (0, 0, 0)\<rparr>"
  from NV12_pixel_access_unrecoverable[of "''pixelAt''" ?f 3 4
      "\<lparr>cerr = ''log: '', cerr_good = True, cerr_room = None\<rparr>" "(0, 0, 0)"]
  have a: "cerr (snd (pixelAt ''pixelAt'' ?f 3 4
          \<lparr>cerr = ''log: '', cerr_good = True, cerr_room = None\<rparr>))
       = ''log: NOT IMPLEMENTED YET! TODO!'' @ [CHR 0x0A]"
    by (simp add: cerr_insert_def)
  from NV12_pixel_access_unrecoverable[of "''pixelAt''" ?f 3 4
      "\<lparr>cerr = ''log: '', cerr_good = False, cerr_room = None\<rparr>" "(0, 0, 0)"]
  have b: "snd (pixelAt ''pixelAt'' ?f 3 4
          \<lparr>cerr = ''log: '', cerr_good = False, cerr_room = None\<rparr>)
       = \<lparr>cerr = ''log: '', cerr_good = False, cerr_room = None\<rparr>"
    by (simp add: cerr_insert_def)
  from a b show ?thesis by simp
qed

text \<open>
  Claim C1, as stated, fails for the NV_12_PLANAR frame: on a 640 x 480 frame,
  \<open>pixelAt\<close> at \<open>(640, 0)\<close> does not throw \<open>OutOfBounds\<close>, and at \<open>(639, 479)\<close> it
  throws instead of succeeding.
\<close>

theorem NV12_bounds_check_counterexample:
  "fst (pixelAt ''pixelAt'' \<lparr>width' = 640, height' = 480, mCurrPixel = (0, 0, 0)\<rparr>
          640 0 \<lparr>cerr = [], cerr_good = True, cerr_room = None\<rparr>) \<noteq> Inl OutOfBounds_thrown
   \<and> isl (fst (pixelAt ''pixelAt'' \<lparr>width' = 640, height' = 480, mCurrPixel = (0, 0, 0)\<rparr>
          639 479 \<lparr>cerr = [], cerr_good = True, cerr_room = None\<rparr>))"
  by (simp add: pixelAt_eq)

text \<open>
  Claim C1, amended. For the NV_12_PLANAR frame of any geometry, \<open>pixelAt\<close> and
  \<open>setPixelAt\<close> at \<open>(width, 0)\<close>, at \<open>(0, height)\<close> and at \<open>(width - 1, height - 1)\<close>
  all throw the \<open>std::runtime_error\<close> of the unimplemented operation, which is not
  \<open>OutOfBounds\<close>; none of the six calls succeeds. (The coordinates are converted from
  \<open>unsigned int\<close> to \<open>uint16_t\<close>, as at a call with the template arguments.)
\<close>

theorem NV12_edge_coordinates_unrecoverable:
  "fst (pixelAt pf this (ucast (width' this)) 0 p) = Inl (std_runtime_error pf)
   \<and> fst (pixelAt pf this 0 (ucast (height' this)) p) = Inl (std_runtime_error pf)
   \<and> fst (pixelAt pf this (ucast (width' this - 1)) (ucast (height' this - 1)) p)
        = Inl (std_runtime_error pf)
   \<and> fst (setPixelAt pf this pixel (ucast (width' this)) 0 p) = Inl (std_runtime_error pf)
   \<and> fst (setPixelAt pf this pixel 0 (ucast (height' this)) p) = Inl (std_runtime_error pf)
   \<and> fst (setPixelAt pf this pixel (ucast (width' this - 1)) (ucast (height' this - 1)) p)
        = Inl (std_runtime_error pf)
   \<and> std_runtime_error pf \<noteq> OutOfBounds_thrown"
  by (simp add: pixelAt_eq setPixelAt_eq)

section \<open>Reading a frame holder\<close>

lemma forward_signal:
  "forward (Inl (MediaException_thrown (MediaException_ctor s))) h
     = Inr (h\<lparr>holder_status := s\<rparr>)"
  by (simp add: cause_def MediaException_ctor_def)

lemma holder_run_never_pushed:
  assumes "\<forall>f. Pushed f \<notin> set evs" and "Signalled MEDIA_READY \<notin> set evs"
    and "holder_status h \<noteq> MEDIA_READY"
  shows "\<exists>reports h'. holder_run evs h = Inr (reports, h')
      \<and> length reports = count_list evs Read
      \<and> (\<forall>r \<in> set reports.
            \<exists>s. s \<noteq> MEDIA_READY \<and> r = Inl (MediaException_thrown (MediaException_ctor s)))
      \<and> slot h' = slot h \<and> holder_status h' \<noteq> MEDIA_READY"
  using assms
proof (induction evs arbitrary: h)
  case Nil
  then show ?case by simp
next
  case (Cons ev evs)
  from Cons.prems have rest: "\<forall>f. Pushed f \<notin> set evs" "Signalled MEDIA_READY \<notin> set evs"
    by auto
  show ?case
  proof (cases ev)
    case (Pushed f)
    with Cons.prems(1) show ?thesis by auto
  next
    case (Signalled s)
    with Cons.prems(2) have s: "s \<noteq> MEDIA_READY" by auto
    then have "holder_status (h\<lparr>holder_status := s\<rparr>) \<noteq> MEDIA_READY" by simp
    from Cons.IH[OF rest this] obtain reports h' where
      "holder_run evs (h\<lparr>holder_status := s\<rparr>) = Inr (reports, h')"
      "length reports = count_list evs Read"
      "\<forall>r \<in> set reports.
         \<exists>s. s \<noteq> MEDIA_READY \<and> r = Inl (MediaException_thrown (MediaException_ctor s))"
      "slot h' = slot h" "holder_status h' \<noteq> MEDIA_READY"
      by auto
    then show ?thesis
      unfolding Signalled by (simp only: holder_run.simps forward_signal) simp
  next
    case Read
    from Cons.IH[OF rest Cons.prems(3)] obtain reports h' where
      ih: "holder_run evs h = Inr (reports, h')"
      "length reports = count_list evs Read"
      "\<forall>r \<in> set reports.
         \<exists>s. s \<noteq> MEDIA_READY \<and> r = Inl (MediaException_thrown (MediaException_ctor s))"
      "slot h' = slot h" "holder_status h' \<noteq> MEDIA_READY"
      by auto
    let ?r = "Inl (MediaException_thrown (MediaException_ctor (holder_status h))) :: thrown + 'a"
    from Cons.prems(3) have g: "get h = (?r, h)" by (simp add: get_def)
    have run: "holder_run (ev # evs) h = Inr (?r # reports, h')"
      unfolding Read using g ih(1) by simp
    have all: "\<forall>r \<in> set (?r # reports).
         \<exists>s. s \<noteq> MEDIA_READY \<and> r = Inl (MediaException_thrown (MediaException_ctor s))"
      using ih(3) Cons.prems(3) by auto
    have len: "length (?r # reports) = count_list (ev # evs) Read"
      unfolding Read using ih(2) by simp
    from run all len ih(4,5) show ?thesis by blast
  qed
qed

lemma holder_run_no_data:
  assumes "\<forall>f. Pushed f \<notin> set evs"
    and "\<forall>s. Signalled s \<in> set evs \<longrightarrow> s = MEDIA_NO_DATA"
    and "holder_status h = MEDIA_NO_DATA"
  shows "holder_run evs h =
     Inr (replicate (count_list evs Read)
            (Inl (MediaException_thrown (MediaException_ctor MEDIA_NO_DATA))), h)"
  using assms(1,2)
proof (induction evs)
  case Nil
  show ?case by simp
next
  case (Cons ev evs)
  then have ih: "holder_run evs h =
     Inr (replicate (count_list evs Read)
            (Inl (MediaException_thrown (MediaException_ctor MEDIA_NO_DATA))), h)"
    by auto
  have same: "h\<lparr>holder_status := MEDIA_NO_DATA\<rparr> = h" using assms(3) by simp
  show ?case
  proof (cases ev)
    case (Pushed f)
    with Cons.prems(1) show ?thesis by auto
  next
    case (Signalled s)
    with Cons.prems(2) have "s = MEDIA_NO_DATA" by auto
    with ih same show ?thesis
      unfolding Signalled by (simp only: holder_run.simps forward_signal) simp
  next
    case Read
    from assms(3) have "get h =
      (Inl (MediaException_thrown (MediaException_ctor MEDIA_NO_DATA)), h)"
      by (simp add: get_def)
    with ih show ?thesis unfolding Read by simp
  qed
qed

text \<open>
  Claim C4, as stated, fails for a holder that was never pushed to but is the consumer
  of a pipe: the pipe operator passes the status of its producer's signal on to it, and
  its \<open>get()\<close> then reports that status (here \<open>BUFFERING\<close>), not \<open>NO_DATA\<close>.
\<close>

theorem never_pushed_holder_counterexample:
  "pipe \<lparr>slot = 5, holder_status = MEDIA_BUFFERING\<rparr> (FrameHolder_new (0::nat))
     = Inr (\<lparr>slot = 5, holder_status = MEDIA_BUFFERING\<rparr>,
            \<lparr>slot = 0, holder_status = MEDIA_BUFFERING\<rparr>)
   \<and> fst (get \<lparr>slot = 0::nat, holder_status = MEDIA_BUFFERING\<rparr>)
       = Inl (MediaException_thrown (MediaException_ctor MEDIA_BUFFERING))
   \<and> holder_run [Signalled MEDIA_BUFFERING, Read] (FrameHolder_new (0::nat))
       = Inr ([Inl (MediaException_thrown (MediaException_ctor MEDIA_BUFFERING))],
              \<lparr>slot = 0, holder_status = MEDIA_BUFFERING\<rparr>)
   \<and> MediaException_ctor MEDIA_BUFFERING \<noteq> MediaException_ctor MEDIA_NO_DATA"
  by (simp add: pipe_def get_def FrameHolder_new_def cause_def MediaException_ctor_def)

text \<open>
  Claim C4, amended. In every state of a Frame Holder, \<open>get()\<close> returns the current
  frame if and only if the status is \<open>READY\<close>; otherwise it raises the status signal
  that carries exactly the holder's status. The call is a single step that always
  answers and leaves the holder as it was. A new holder is in \<open>NO_DATA\<close>. On a holder
  on which \<open>push\<close> was never called, whatever signals the pipe passed on to it and
  however often it is read, no \<open>get()\<close> returns a frame: each raises a status signal
  with a status other than \<open>READY\<close>. Every \<open>get()\<close> reports \<open>NO_DATA\<close> as long as
  the pipe has passed on no other status.
\<close>

theorem FrameHolder_get:
  assumes "\<forall>f. Pushed f \<notin> set evs" and "Signalled MEDIA_READY \<notin> set evs"
  shows "(fst (get h) = Inr (slot h)) = (status h = MEDIA_READY)
   \<and> (\<exists>f. fst (get h) = Inr f) = (status h = MEDIA_READY)
   \<and> (status h \<noteq> MEDIA_READY \<longrightarrow>
        fst (get h) = Inl (MediaException_thrown (MediaException_ctor (status h))))
   \<and> snd (get h) = h
   \<and> status (FrameHolder_new blank) = MEDIA_NO_DATA
   \<and> (\<exists>reports h'. holder_run evs (FrameHolder_new blank) = Inr (reports, h')
        \<and> length reports = count_list evs Read
        \<and> (\<forall>r \<in> set reports.
              \<exists>s. s \<noteq> MEDIA_READY \<and> r = Inl (MediaException_thrown (MediaException_ctor s)))
        \<and> slot h' = blank \<and> status h' \<noteq> MEDIA_READY
        \<and> ((\<forall>s. Signalled s \<in> set evs \<longrightarrow> s = MEDIA_NO_DATA) \<longrightarrow>
             reports = replicate (count_list evs Read)
               (Inl (MediaException_thrown (MediaException_ctor MEDIA_NO_DATA)))))"
proof -
  have a: "(fst (get h) = Inr (slot h)) = (status h = MEDIA_READY)"
    and b: "(\<exists>f. fst (get h) = Inr f) = (status h = MEDIA_READY)"
    and c: "status h \<noteq> MEDIA_READY \<longrightarrow>
        fst (get h) = Inl (MediaException_thrown (MediaException_ctor (status h)))"
    and d: "snd (get h) = h"
    by (simp_all add: get_def status_def)
  have e: "status (FrameHolder_new blank) = MEDIA_NO_DATA"
    by (simp add: status_def FrameHolder_new_def)
  have n: "holder_status (FrameHolder_new blank) \<noteq> MEDIA_READY"
    "holder_status (FrameHolder_new blank) = MEDIA_NO_DATA"
    "slot (FrameHolder_new blank) = blank"
    by (simp_all add: FrameHolder_new_def)
  from holder_run_never_pushed[OF assms n(1)] obtain reports h' where
    run: "holder_run evs (FrameHolder_new blank) = Inr (reports, h')"
      "length reports = count_list evs Read"
      "\<forall>r \<in> set reports.
         \<exists>s. s \<noteq> MEDIA_READY \<and> r = Inl (MediaException_thrown (MediaException_ctor s))"
      "slot h' = blank" "status h' \<noteq> MEDIA_READY"
    unfolding status_def n(3) by blast
  have nd: "reports = replicate (count_list evs Read)
               (Inl (MediaException_thrown (MediaException_ctor MEDIA_NO_DATA)))"
    if "\<forall>s. Signalled s \<in> set evs \<longrightarrow> s = MEDIA_NO_DATA"
    using holder_run_no_data[OF assms(1) that n(2)] run(1) by simp
  from run nd have f: "\<exists>reports h'. holder_run evs (FrameHolder_new blank) = Inr (reports, h')
        \<and> length reports = count_list evs Read
        \<and> (\<forall>r \<in> set reports.
              \<exists>s. s \<noteq> MEDIA_READY \<and> r = Inl (MediaException_thrown (MediaException_ctor s)))
        \<and> slot h' = blank \<and> status h' \<noteq> MEDIA_READY
        \<and> ((\<forall>s. Signalled s \<in> set evs \<longrightarrow> s = MEDIA_NO_DATA) \<longrightarrow>
             reports = replicate (count_list evs Read)
               (Inl (MediaException_thrown (MediaException_ctor MEDIA_NO_DATA))))"
    by blast
  from a b c d e f show ?thesis by blast
qed

theorem FrameHolder_get_witness:
  "(\<forall>f. Pushed f \<notin> set [Read, Signalled MEDIA_NO_DATA, Read :: nat holder_event])
   \<and> Signalled MEDIA_READY \<notin> set [Read, Signalled MEDIA_NO_DATA, Read :: nat holder_event]
   \<and> status (FrameHolder_new (0::nat)) \<noteq> MEDIA_READY
   \<and> fst (get (FrameHolder_new (0::nat)))
       = Inl (MediaException_thrown (MediaException_ctor MEDIA_NO_DATA))
   \<and> (\<exists>h'. holder_run [Read, Signalled MEDIA_NO_DATA, Read] (FrameHolder_new (0::nat))
         = Inr ([Inl (MediaException_thrown (MediaException_ctor MEDIA_NO_DATA)),
                 Inl (MediaException_thrown (MediaException_ctor MEDIA_NO_DATA))], h'))
   \<and> status (push 7 (FrameHolder_new (0::nat))) = MEDIA_READY
   \<and> fst (get (push 7 (FrameHolder_new (0::nat)))) = Inr 7"
proof -
  let ?evs = "[Read, Signalled MEDIA_NO_DATA, Read] :: nat holder_event list"
  have p: "\<forall>f. Pushed f \<notin> set ?evs" and s: "Signalled MEDIA_READY \<notin> set ?evs"
    by simp_all
  have all: "\<forall>s. Signalled s \<in> set ?evs \<longrightarrow> s = MEDIA_NO_DATA" by simp
  have two: "count_list ?evs Read = 2" by simp
  have n: "status (FrameHolder_new (0::nat)) = MEDIA_NO_DATA"
    by (simp add: status_def FrameHolder_new_def)
  have r: "status (push 7 (FrameHolder_new (0::nat))) = MEDIA_READY"
    "slot (push 7 (FrameHolder_new (0::nat))) = 7"
    by (simp_all add: status_def push_def)
  note fresh = FrameHolder_get[OF p s, of "FrameHolder_new (0::nat)" "0::nat"]
  note ready = FrameHolder_get[OF p s, of "push 7 (FrameHolder_new (0::nat))" "0::nat"]
  from fresh n have a: "fst (get (FrameHolder_new (0::nat)))
       = Inl (MediaException_thrown (MediaException_ctor MEDIA_NO_DATA))"
    by simp
  from fresh all obtain reports h' where
    "holder_run ?evs (FrameHolder_new (0::nat)) = Inr (reports, h')"
    "reports = replicate (count_list ?evs Read)
               (Inl (MediaException_thrown (MediaException_ctor MEDIA_NO_DATA)))"
    by blast
  then have c: "\<exists>h'. holder_run ?evs (FrameHolder_new (0::nat))
         = Inr ([Inl (MediaException_thrown (MediaException_ctor MEDIA_NO_DATA)),
                 Inl (MediaException_thrown (MediaException_ctor MEDIA_NO_DATA))], h')"
    unfolding two by (simp add: numeral_2_eq_2)
  from ready r have b: "fst (get (push 7 (FrameHolder_new (0::nat)))) = Inr 7" by simp
  from p s n a c r b show ?thesis by simp
qed

section \<open>Overflow of the ring-buffered holder\<close>

lemma ring_push_all_full:
  "length (ring h) \<le> capacity h \<Longrightarrow>
     ring (ring_push_all fs h)
       = drop (length (ring h) + length fs - capacity h) (ring h @ fs)
     \<and> overflows (ring_push_all fs h)
       = overflows h + (length (ring h) + length fs - capacity h)"
  unfolding ring_push_all_def
proof (induction fs arbitrary: h)
  case Nil
  then show ?case by simp
next
  case (Cons f fs)
  show ?case
  proof (cases "length (ring h) < capacity h")
    case True
    then have h1: "ring_push f h = h\<lparr>ring := ring h @ [f]\<rparr>"
      by (simp add: ring_push_def)
    have "length (ring (h\<lparr>ring := ring h @ [f]\<rparr>)) \<le> capacity (h\<lparr>ring := ring h @ [f]\<rparr>)"
      using True by simp
    from Cons.IH[OF this] show ?thesis by (simp add: h1)
  next
    case False
    with Cons.prems have full: "length (ring h) = capacity h" by simp
    define h' where "h' = h\<lparr>ring := tl (ring h @ [f]), overflows := overflows h + 1\<rparr>"
    from False have h1: "ring_push f h = h'"
      by (simp add: ring_push_def h'_def)
    have l: "length (ring h') = capacity h" "capacity h' = capacity h"
      "overflows h' = overflows h + 1" "ring h' = tl (ring h @ [f])"
      using full by (simp_all add: h'_def)
    have "length (ring h') \<le> capacity h'" using l by simp
    from Cons.IH[OF this]
    have ih: "ring (fold ring_push fs h') = drop (length fs) (tl (ring h @ [f]) @ fs)"
      "overflows (fold ring_push fs h') = overflows h + 1 + length fs"
      using l by simp_all
    have t: "tl (ring h @ [f]) @ fs = tl (ring h @ f # fs)"
      by (cases "ring h") simp_all
    have "drop (length fs) (tl (ring h @ f # fs)) = drop (Suc (length fs)) (ring h @ f # fs)"
      by (simp only: drop_Suc)
    with ih t show ?thesis by (simp add: h1 full)
  qed
qed

text \<open>
  Claim C6. The ring-buffered holder takes its capacity as a parameter, 100 by default.
  With capacity 100, 150 pushes with no read between them leave exactly 50 overflow
  events counted and exactly the 100 frames pushed last in the ring, in the order of
  the pushes.
\<close>

theorem ring_150_pushes:
  assumes "length (fs :: 'f list) = 150"
  shows "capacity (RingHolder_new n :: 'f RingHolder) = n
   \<and> capacity (RingHolder_default :: 'f RingHolder) = 100
   \<and> overflows (ring_push_all fs RingHolder_default) = 50
   \<and> ring (ring_push_all fs RingHolder_default) = drop 50 fs
   \<and> length (ring (ring_push_all fs RingHolder_default)) = 100
   \<and> ring (ring_push_all fs (RingHolder_new 100)) = drop 50 fs
   \<and> overflows (ring_push_all fs (RingHolder_new 100)) = 50"
proof -
  have d: "(RingHolder_default :: 'f RingHolder) = RingHolder_new 100"
    by (simp add: RingHolder_default_def encodedVideoFrameBufferSize_def)
  have e: "length (ring (RingHolder_new 100 :: 'f RingHolder))
             \<le> capacity (RingHolder_new 100 :: 'f RingHolder)"
    by (simp add: RingHolder_new_def)
  from ring_push_all_full[OF e, of fs] assms
  have r: "ring (ring_push_all fs (RingHolder_new 100)) = drop 50 fs"
    "overflows (ring_push_all fs (RingHolder_new 100)) = 50"
    by (simp_all add: RingHolder_new_def)
  have c: "capacity (RingHolder_new m :: 'f RingHolder) = m" for m
    by (simp add: RingHolder_new_def)
  from r assms show ?thesis by (simp add: d c)
qed

theorem ring_150_pushes_witness:
  "length [0 ..< 150] = 150
   \<and> overflows (ring_push_all [0 ..< 150] RingHolder_default) = 50
   \<and> ring (ring_push_all [0 ..< 150] RingHolder_default) = [50 ..< 150]"
proof -
  have l: "length [0 ..< 150] = 150" by simp
  have d: "drop 50 [0 ..< 150] = [50 ..< 150]" by (simp add: drop_upt)
  from ring_150_pushes[OF l] l d show ?thesis by simp
qed

section \<open>The build-time check of the pipe operator\<close>

lemma build_iff: "(build cs = Accepted) = list_all (\<lambda>(out, inp). out = inp) cs"
  by (induction cs) (auto simp: build_def connect_def)

text \<open>
  Claim C3. A connection is accepted exactly when the producer's and the consumer's
  (format, width, height) are the same triple and rejected exactly when they differ. A
  triple and the one with width and height exchanged are the same only for a square
  frame, so a change of orientation alone is rejected. The decision is taken on the types
  when the pipeline is built: a pipeline is built exactly when each of its connections
  is between identical types, as it is for the pipes of \<open>main\<close>. At run time the pipe
  operator has no case that rejects and converts nothing: a ready producer's frame
  arrives in the consumer's slot as it is, and otherwise only the status is passed on.
\<close>

theorem connect_iff_identical_types:
  "(connect p c = Accepted) = (p = c)
   \<and> (connect p c = Rejected) = (p \<noteq> c)
   \<and> (connect (f, w, h) (f, h, w) = Accepted) = (w = h)
   \<and> (build cs = Accepted) = list_all (\<lambda>(out, inp). out = inp) cs
   \<and> (build cs = Rejected) = (\<not> list_all (\<lambda>(out, inp). out = inp) cs)
   \<and> build main_pipes = Accepted
   \<and> (status producer = MEDIA_READY \<longrightarrow>
        pipe producer consumer = Inr (producer, push (slot producer) consumer))
   \<and> (status producer \<noteq> MEDIA_READY \<longrightarrow>
        pipe producer consumer
          = Inr (producer, consumer\<lparr>holder_status := status producer\<rparr>))"
proof -
  have a: "(connect p c = Accepted) = (p = c)" "(connect p c = Rejected) = (p \<noteq> c)"
    by (simp_all add: connect_def)
  have b: "(connect (f, w, h) (f, h, w) = Accepted) = (w = h)"
    by (cases "w = h") (simp_all add: connect_def)
  have c: "(build cs = Rejected) = (\<not> list_all (\<lambda>(out, inp). out = inp) cs)"
    using build_iff[of cs] by (cases "build cs") simp_all
  have d: "build main_pipes = Accepted"
    by (simp add: build_iff main_pipes_def Let_def)
  have e: "status producer = MEDIA_READY \<longrightarrow>
        pipe producer consumer = Inr (producer, push (slot producer) consumer)"
    by (simp add: pipe_def get_def status_def)
  have g: "status producer \<noteq> MEDIA_READY \<longrightarrow>
        pipe producer consumer
          = Inr (producer, consumer\<lparr>holder_status := status producer\<rparr>)"
    by (simp add: pipe_def get_def status_def cause_def MediaException_ctor_def)
  from a b c d e g build_iff[of cs] show ?thesis by blast
qed

theorem connect_iff_identical_types_witness:
  "connect (YUYV422_PACKED, 640, 480) (YUYV422_PACKED, 640, 480) = Accepted
   \<and> connect (YUYV422_PACKED, 640, 480) (YUYV422_PACKED, 480, 640) = Rejected
   \<and> build [((H264, 640, 480), (H264, 640, 480)), ((H264, 640, 480), (H264, 480, 640))]
       = Rejected
   \<and> status (push (7::nat) (FrameHolder_new 0)) = MEDIA_READY
   \<and> pipe (push (7::nat) (FrameHolder_new 0)) (FrameHolder_new 0)
       = Inr (push 7 (FrameHolder_new 0), push 7 (FrameHolder_new 0))
   \<and> status (FrameHolder_new (0::nat)) \<noteq> MEDIA_READY
   \<and> pipe (FrameHolder_new (0::nat)) (push 7 (FrameHolder_new 0))
       = Inr (FrameHolder_new 0, \<lparr>slot = 7, holder_status = MEDIA_NO_DATA\<rparr>)"
proof -
  let ?cs = "[((H264, 640, 480), (H264, 640, 480)), ((H264, 640, 480), (H264, 480, 640))]
               :: (frame_type \<times> frame_type) list"
  have r: "status (push (7::nat) (FrameHolder_new 0)) = MEDIA_READY"
    "slot (push (7::nat) (FrameHolder_new 0)) = 7"
    by (simp_all add: status_def push_def)
  have n: "status (FrameHolder_new (0::nat)) = MEDIA_NO_DATA"
    by (simp add: status_def FrameHolder_new_def)
  note same = connect_iff_identical_types[of "(YUYV422_PACKED, 640, 480)"
      "(YUYV422_PACKED, 640, 480)" YUYV422_PACKED 640 480 ?cs
      "push (7::nat) (FrameHolder_new 0)" "FrameHolder_new 0"]
  note turned = connect_iff_identical_types[of "(YUYV422_PACKED, 640, 480)"
      "(YUYV422_PACKED, 480, 640)" YUYV422_PACKED 640 480 ?cs
      "FrameHolder_new (0::nat)" "push 7 (FrameHolder_new 0)"]
  from same have a: "connect (YUYV422_PACKED, 640, 480) (YUYV422_PACKED, 640, 480) = Accepted"
    by simp
  from turned have b: "connect (YUYV422_PACKED, 640, 480) (YUYV422_PACKED, 480, 640) = Rejected"
    by simp
  from turned have d: "build ?cs = Rejected"
    by simp
  from same r
  have e: "pipe (push (7::nat) (FrameHolder_new 0)) (FrameHolder_new 0)
       = Inr (push 7 (FrameHolder_new 0), push 7 (FrameHolder_new 0))"
    by (simp add: push_def)
  from turned n
  have g: "pipe (FrameHolder_new (0::nat)) (push 7 (FrameHolder_new 0))
       = Inr (FrameHolder_new 0, \<lparr>slot = 7, holder_status = MEDIA_NO_DATA\<rparr>)"
    by (simp add: push_def FrameHolder_new_def)
  from r n a b d e g show ?thesis by simp
qed

section \<open>A capture device that is disconnected\<close>

lemma cause_ctor: "fst (cause (MediaException_ctor s)) = s"
  by (simp add: cause_def MediaException_ctor_def)

lemma loop_iteration_can_grab:
  assumes "device_status d = DEV_CAN_GRAB" and "ev \<noteq> SourceLost"
  shows "\<exists>r h'. loop_iteration ev (d, h) = Inr (r, d, h')"
proof (cases ev)
  case (FrameDelivered f)
  with assms show ?thesis
    by (simp add: loop_iteration_def grab_def get_def push_def)
next
  case NothingDelivered
  with assms show ?thesis
    by (simp add: loop_iteration_def grab_def get_def cause_ctor)
next
  case SourceLost
  with assms show ?thesis by simp
qed

lemma loop_iteration_source_lost:
  assumes "device_status d = DEV_CAN_GRAB"
  shows "loop_iteration SourceLost (d, h) =
     Inr (Inl (MediaException_thrown (MediaException_ctor MEDIA_NO_DATA)),
          d\<lparr>device_status := DEV_DISCONNECTED\<rparr>, h\<lparr>holder_status := MEDIA_NO_DATA\<rparr>)"
  using assms by (simp add: loop_iteration_def grab_def get_def cause_ctor)

lemma loop_iteration_disconnected:
  assumes "device_status d = DEV_DISCONNECTED"
  shows "loop_iteration ev (d, h) =
     Inr (Inl (MediaException_thrown (MediaException_ctor MEDIA_NO_DATA)),
          d, h\<lparr>holder_status := MEDIA_NO_DATA\<rparr>)"
  using assms by (simp add: loop_iteration_def grab_def get_def cause_ctor)

lemma drive_can_grab:
  assumes "device_status d = DEV_CAN_GRAB" and "SourceLost \<notin> set evs"
  shows "\<exists>rs h'. drive evs (d, h) = Inr (rs, d, h') \<and> length rs = length evs"
  using assms(2)
proof (induction evs arbitrary: h)
  case Nil
  show ?case by simp
next
  case (Cons ev evs)
  then have "ev \<noteq> SourceLost" and rest: "SourceLost \<notin> set evs" by auto
  from loop_iteration_can_grab[OF assms(1) this(1)] obtain r h1
    where it: "loop_iteration ev (d, h) = Inr (r, d, h1)" by blast
  from Cons.IH[OF rest] obtain rs h'
    where "drive evs (d, h1) = Inr (rs, d, h')" "length rs = length evs" by blast
  with it show ?case by simp
qed

lemma drive_disconnected:
  assumes "device_status d = DEV_DISCONNECTED" and "holder_status h = MEDIA_NO_DATA"
  shows "drive evs (d, h) =
     Inr (replicate (length evs) (Inl (MediaException_thrown (MediaException_ctor MEDIA_NO_DATA))),
          d, h)"
proof (induction evs)
  case Nil
  show ?case by simp
next
  case (Cons ev evs)
  from assms(2) have "h\<lparr>holder_status := MEDIA_NO_DATA\<rparr> = h" by simp
  with loop_iteration_disconnected[OF assms(1), of ev h] Cons show ?case by simp
qed

lemma drive_append:
  "drive (xs @ ys) s =
     (case drive xs s of
        Inl e \<Rightarrow> Inl e
      | Inr (rs, s') \<Rightarrow>
          (case drive ys s' of
             Inl e \<Rightarrow> Inl e
           | Inr (rs', s'') \<Rightarrow> Inr (rs @ rs', s'')))"
  by (induction xs arbitrary: s) (auto split: sum.splits)

text \<open>
  Claim C5. Take any run of the driving loop on a device that can produce, and any
  point of it: whatever happened before (\<open>before\<close>, in which the source was not lost),
  the loss of the source can come next and takes the device from \<open>CAN_PRODUCE\<close> to
  \<open>DISCONNECTED\<close>. From that iteration on, whatever the source does (\<open>after\<close>), every
  \<open>get()\<close> on the device's holder reports \<open>NO_DATA\<close> by the status signal the loop
  catches, no other exception is raised, and the loop runs through all its iterations
  (the run ends in \<open>Inr\<close>) with the device still disconnected.
\<close>

theorem disconnected_device_reports_no_data:
  assumes "device_status d = DEV_CAN_GRAB" and "SourceLost \<notin> set before"
  shows "\<exists>reports d' h'.
      drive (before @ SourceLost # after) (d, h) =
        Inr (reports @ replicate (Suc (length after))
               (Inl (MediaException_thrown (MediaException_ctor MEDIA_NO_DATA))), d', h')
      \<and> length reports = length before
      \<and> device_status d' = DEV_DISCONNECTED
      \<and> status h' = MEDIA_NO_DATA
      \<and> device_status (snd (grab SourceLost d)) = DEV_DISCONNECTED"
proof -
  from drive_can_grab[OF assms] obtain rs h1
    where pre: "drive before (d, h) = Inr (rs, d, h1)" "length rs = length before"
    by blast
  let ?d = "d\<lparr>device_status := DEV_DISCONNECTED\<rparr>"
  let ?h = "h1\<lparr>holder_status := MEDIA_NO_DATA\<rparr>"
  let ?nd = "Inl (MediaException_thrown (MediaException_ctor MEDIA_NO_DATA)) :: thrown + 'a"
  have post: "drive after (?d, ?h) = Inr (replicate (length after) ?nd, ?d, ?h)"
    by (rule drive_disconnected) simp_all
  have "drive (SourceLost # after) (d, h1) = Inr (?nd # replicate (length after) ?nd, ?d, ?h)"
    using loop_iteration_source_lost[OF assms(1), of h1] post by simp
  with pre have run: "drive (before @ SourceLost # after) (d, h) =
      Inr (rs @ replicate (Suc (length after)) ?nd, ?d, ?h)"
    by (simp add: drive_append)
  have g: "device_status (snd (grab SourceLost d)) = DEV_DISCONNECTED"
    using assms(1) by (simp add: grab_def)
  have "device_status ?d = DEV_DISCONNECTED" "status ?h = MEDIA_NO_DATA"
    by (simp_all add: status_def)
  with run pre(2) g show ?thesis by blast
qed

theorem disconnected_device_reports_no_data_witness:
  "device_status \<lparr>device_status = DEV_CAN_GRAB\<rparr> = DEV_CAN_GRAB
   \<and> SourceLost \<notin> set [FrameDelivered (1::nat), NothingDelivered]
   \<and> (\<exists>reports d' h'.
        drive ([FrameDelivered (1::nat), NothingDelivered]
               @ SourceLost # [FrameDelivered 2, NothingDelivered])
          (\<lparr>device_status = DEV_CAN_GRAB\<rparr>, FrameHolder_new 0)
        = Inr (reports @ replicate 3
                 (Inl (MediaException_thrown (MediaException_ctor MEDIA_NO_DATA))), d', h')
        \<and> length reports = 2
        \<and> device_status d' = DEV_DISCONNECTED
        \<and> status h' = MEDIA_NO_DATA)
   \<and> drive ([FrameDelivered (1::nat), NothingDelivered]
            @ SourceLost # [FrameDelivered 2, NothingDelivered])
        (\<lparr>device_status = DEV_CAN_GRAB\<rparr>, FrameHolder_new 0)
      = Inr ([Inr 1, Inl (MediaException_thrown (MediaException_ctor MEDIA_NOT_READY)),
              Inl (MediaException_thrown (MediaException_ctor MEDIA_NO_DATA)),
              Inl (MediaException_thrown (MediaException_ctor MEDIA_NO_DATA)),
              Inl (MediaException_thrown (MediaException_ctor MEDIA_NO_DATA))],
             \<lparr>device_status = DEV_DISCONNECTED\<rparr>,
             \<lparr>slot = 1, holder_status = MEDIA_NO_DATA\<rparr>)"
proof -
  have a: "device_status \<lparr>device_status = DEV_CAN_GRAB\<rparr> = DEV_CAN_GRAB" by simp
  have b: "SourceLost \<notin> set [FrameDelivered (1::nat), NothingDelivered]" by simp
  have c: "\<exists>reports d' h'.
        drive ([FrameDelivered (1::nat), NothingDelivered]
               @ SourceLost # [FrameDelivered 2, NothingDelivered])
          (\<lparr>device_status = DEV_CAN_GRAB\<rparr>, FrameHolder_new 0)
        = Inr (reports @ replicate 3
                 (Inl (MediaException_thrown (MediaException_ctor MEDIA_NO_DATA))), d', h')
        \<and> length reports = 2
        \<and> device_status d' = DEV_DISCONNECTED
        \<and> status h' = MEDIA_NO_DATA"
  proof -
    from disconnected_device_reports_no_data[OF a b,
      of "[FrameDelivered 2, NothingDelivered]" "FrameHolder_new 0"]
    obtain reports d' h' where
      run: "drive ([FrameDelivered (1::nat), NothingDelivered]
               @ SourceLost # [FrameDelivered 2, NothingDelivered])
          (\<lparr>device_status = DEV_CAN_GRAB\<rparr>, FrameHolder_new 0)
        = Inr (reports @ replicate (Suc (length [FrameDelivered (2::nat), NothingDelivered]))
                 (Inl (MediaException_thrown (MediaException_ctor MEDIA_NO_DATA))), d', h')"
      and rest: "length reports = length [FrameDelivered (1::nat), NothingDelivered]"
        "device_status d' = DEV_DISCONNECTED" "status h' = MEDIA_NO_DATA"
      by blast
    have three: "Suc (length [FrameDelivered (2::nat), NothingDelivered]) = 3" by simp
    have two: "length [FrameDelivered (1::nat), NothingDelivered] = 2" by simp
    from run rest show ?thesis unfolding three two by blast
  qed
  have e: "drive ([FrameDelivered (1::nat), NothingDelivered]
            @ SourceLost # [FrameDelivered 2, NothingDelivered])
        (\<lparr>device_status = DEV_CAN_GRAB\<rparr>, FrameHolder_new 0)
      = Inr ([Inr 1, Inl (MediaException_thrown (MediaException_ctor MEDIA_NOT_READY)),
              Inl (MediaException_thrown (MediaException_ctor MEDIA_NO_DATA)),
              Inl (MediaException_thrown (MediaException_ctor MEDIA_NO_DATA)),
              Inl (MediaException_thrown (MediaException_ctor MEDIA_NO_DATA))],
             \<lparr>device_status = DEV_DISCONNECTED\<rparr>,
             \<lparr>slot = 1, holder_status = MEDIA_NO_DATA\<rparr>)"
    by (simp add: loop_iteration_def grab_def get_def push_def FrameHolder_new_def
        cause_ctor)
  from a b c e show ?thesis by blast
qed

end
